theory Spec2Isabelle
  imports Main "HOL-Library.Multiset"
begin

section \<open>Data model of \<open>src/App.tsx\<close>\<close>

text \<open>
  The interfaces \<open>Channel\<close>, \<open>Video\<close>, \<open>CommunityPost\<close> and \<open>FetchSettings\<close>.
  A JavaScript string is modelled as a \<open>string\<close>, one list element per code unit.
  The field \<open>publishedAt\<close> is an ISO timestamp string in the source and is only ever read
  through \<open>new Date(publishedAt)\<close>; the model stores the epoch milliseconds that this
  conversion yields (an upstream record always carries a well-formed timestamp).
\<close>

datatype content_type = LongForm | Shorts | Community

record contentTypes =
  longForm :: bool
  shorts :: bool
  community :: bool

record channel =
  channel_id :: string
  channel_name :: string
  channel_thumbnail :: string
  uploadsPlaylistId :: "string option"
  channel_contentTypes :: contentTypes

datatype item =
  Video (item_id: string) (title: string) (thumbnail: string) (channelName: string)
        (channelId: string) (publishedAt: int) (viewCount: string) (duration: string)
        (type: content_type)
| CommunityPost (item_id: string) (content: string) (thumbnail: string) (channelName: string)
        (channelId: string) (publishedAt: int) (type: content_type)

record FetchSettings =
  maxVideosPerChannel :: int
  timeRangeDays :: int

text \<open>
  A rejected \<open>fetch\<close> or \<open>response.json()\<close> promise (network failure, body that is not
  JSON) is the only exception the aggregation code can meet; it is a value of type
  \<open>error\<close>, and a computation that may throw returns \<open>error + 'a\<close>.
\<close>

datatype error = FetchRejected

text \<open>
  The upstream records the code reads, field by field: a playlist entry
  (\<open>snippet.title\<close>, \<open>snippet.publishedAt\<close>, \<open>snippet.thumbnails?.medium?.url\<close>,
  \<open>snippet.resourceId?.videoId\<close>), a video detail (\<open>id\<close>, \<open>contentDetails.duration\<close>)
  and an activity (\<open>id\<close>, \<open>snippet.type\<close>, \<open>snippet.publishedAt\<close>,
  \<open>snippet.description\<close>, \<open>snippet.thumbnails?.medium?.url\<close>).
\<close>

record playlist_entry =
  pl_title :: string
  pl_publishedAt :: int
  pl_thumbnail :: "string option"
  pl_videoId :: "string option"

record video_detail =
  vd_id :: string
  vd_duration :: string

record activity =
  act_id :: string
  act_type :: string
  act_publishedAt :: int
  act_description :: "string option"
  act_thumbnail :: "string option"

text \<open>
  The upstream service, the clock and the time zone. Each endpoint answers a request either by throwing or
  with a JSON body, of which the model keeps what the code reads: the uploads playlist id of
  \<open>items[0]\<close> for \<open>channels\<close>, and the optional \<open>items\<close> array for the three list
  endpoints (\<open>None\<close> for a body without \<open>items\<close>, such as an error body). The batch of
  identifiers sent to \<open>videos\<close> is kept as a list; the source joins it with commas into the
  URL. \<open>clock\<close> is the reading of \<open>new Date()\<close> and \<open>Date.now()\<close>. \<open>localTZA\<close> is
  the offset of the browser's time zone in milliseconds, as ECMAScript's \<open>LocalTZA(t, isUTC)\<close>
  gives it: at the UTC time \<open>t\<close> when \<open>isUTC\<close> is true, at the local time \<open>t\<close> otherwise.
\<close>

record upstream =
  channelsApi :: "string \<Rightarrow> error + string option"
  playlistItemsApi :: "string \<Rightarrow> int \<Rightarrow> error + playlist_entry list option"
  videosApi :: "string list \<Rightarrow> error + video_detail list option"
  activitiesApi :: "string \<Rightarrow> int \<Rightarrow> error + activity list option"
  clock :: int
  localTZA :: "int \<Rightarrow> bool \<Rightarrow> int"

text \<open>JavaScript truthiness of an optional string: \<open>undefined\<close> and \<open>''\<close> are falsy.\<close>

fun truthy :: "string option \<Rightarrow> bool" where
  "truthy None = False"
| "truthy (Some s) = (s \<noteq> [])"

text \<open>\<open>x || d\<close> on an optional string.\<close>

fun orElse :: "string option \<Rightarrow> string \<Rightarrow> string" where
  "orElse None d = d"
| "orElse (Some s) d = (if s = [] then d else s)"

section \<open>Content classifier (lines 256--274)\<close>

text \<open>
  \<open>durationStr.match(/PT(?:(\d+)M)?(?:(\d+)S)?/)\<close>. The pattern is not anchored, so the
  match starts at the first occurrence of \<open>PT\<close>. Each optional group is greedy: it takes the
  longest run of digits and needs the unit letter right after it; otherwise the group is
  skipped and its capture is \<open>undefined\<close>. Nothing follows the groups in the pattern, so the
  match succeeds wherever \<open>PT\<close> is found.
\<close>

definition isDigit :: "char \<Rightarrow> bool" where
  "isDigit c = (c \<in> set ''0123456789'')"

definition optGroup :: "char \<Rightarrow> string \<Rightarrow> string option \<times> string" where
  "optGroup u s =
     (let ds = takeWhile isDigit s in
      case dropWhile isDigit s of
        [] \<Rightarrow> (None, s)
      | c # r \<Rightarrow> if ds \<noteq> [] \<and> c = u then (Some ds, r) else (None, s))"

fun durationMatch :: "string \<Rightarrow> (string option \<times> string option) option" where
  "durationMatch [] = None"
| "durationMatch [c] = None"
| "durationMatch (c # d # s) =
     (if c = CHR ''P'' \<and> d = CHR ''T''
      then (let (m, r) = optGroup (CHR ''M'') s; (sec, r') = optGroup (CHR ''S'') r
            in Some (m, sec))
      else durationMatch (d # s))"

text \<open>\<open>parseInt\<close> on a run of decimal digits.\<close>

definition digitVal :: "char \<Rightarrow> int" where
  "digitVal c = int (of_char c) - 48"

definition parseInt :: "string \<Rightarrow> int" where
  "parseInt ds = foldl (\<lambda>n c. 10 * n + digitVal c) 0 ds"

text \<open>
  \<open>totalSeconds\<close> of a non-empty duration string: \<open>match?.[1] || '0'\<close> and
  \<open>match?.[2] || '0'\<close> turn a failed match and a skipped group into \<open>0\<close>.
\<close>

definition totalSeconds :: "string \<Rightarrow> int" where
  "totalSeconds durationStr =
     (let match = durationMatch durationStr;
          minutes = parseInt (case match of Some (Some m, _) \<Rightarrow> m | _ \<Rightarrow> ''0'');
          seconds = parseInt (case match of Some (_, Some s) \<Rightarrow> s | _ \<Rightarrow> ''0'')
      in minutes * 60 + seconds)"

text \<open>
  The classification block: the pair \<open>(duration, type)\<close> for an entry with the given
  \<open>videoId\<close>, looked up in the table \<open>videoDurations\<close>.
\<close>

definition classify :: "string option \<Rightarrow> (string \<rightharpoonup> string) \<Rightarrow> string \<times> content_type" where
  "classify videoId videoDurations =
     (case videoId of
        None \<Rightarrow> (''Video'', LongForm)
      | Some v \<Rightarrow>
          if v = [] then (''Video'', LongForm)
          else (case videoDurations v of
                  None \<Rightarrow> (''Video'', LongForm)
                | Some durationStr \<Rightarrow>
                    if durationStr = [] then (''Video'', LongForm)
                    else if totalSeconds durationStr \<le> 60 then (''Short'', Shorts)
                    else (''Video'', LongForm)))"

section \<open>Time-window filter (lines 195--196, 252 and 305)\<close>

text \<open>
  \<open>date.setDate(date.getDate() - days)\<close> works on the local time of the date: it keeps the
  time within the day and moves the day back by \<open>days\<close>, then converts the local time back
  to UTC with the offset that holds at the new local time. Across a change of the offset
  (daylight saving) the result is not \<open>days\<close> times 24 hours before the date.
\<close>

definition msPerDay :: int where
  "msPerDay = 86400000"

definition setDateBack :: "(int \<Rightarrow> bool \<Rightarrow> int) \<Rightarrow> int \<Rightarrow> int \<Rightarrow> int" where
  "setDateBack tza t days =
     (let localTime = t + tza t True;
          newDate = localTime - days * msPerDay
      in newDate - tza newDate False)"

text \<open>Lines 195--196: the cutoff is computed once for the whole fetch of a channel.\<close>

definition cutoffDate :: "upstream \<Rightarrow> FetchSettings \<Rightarrow> int" where
  "cutoffDate up fs = setDateBack (localTZA up) (clock up) (timeRangeDays fs)"

text \<open>Line 252 skips a playlist entry when this test is true.\<close>

definition skipVideo :: "int \<Rightarrow> FetchSettings \<Rightarrow> int \<Rightarrow> bool" where
  "skipVideo cutoff fs published = (timeRangeDays fs \<noteq> 0 \<and> published < cutoff)"

text \<open>Line 305 keeps a community activity when this test is true.\<close>

definition keepCommunity :: "int \<Rightarrow> FetchSettings \<Rightarrow> int \<Rightarrow> bool" where
  "keepCommunity cutoff fs published = (timeRangeDays fs = 0 \<or> published \<ge> cutoff)"

section \<open>Batched detail fetcher (lines 230--245)\<close>

text \<open>\<open>videoDurations[video.id] = video.contentDetails.duration\<close> for each video of a body.\<close>

fun storeDurations :: "(string \<rightharpoonup> string) \<Rightarrow> video_detail list \<Rightarrow> (string \<rightharpoonup> string)" where
  "storeDurations videoDurations [] = videoDurations"
| "storeDurations videoDurations (video # rest) =
     storeDurations (videoDurations(vd_id video \<mapsto> vd_duration video)) rest"

text \<open>
  The loop \<open>for (let i = 0; i < videoIds.length; i += batchSize)\<close>. Besides the table it
  returns the requests it has issued, in order. A request that throws ends the loop: the
  source has no handler inside \<open>fetchChannelVideos\<close>.
\<close>

definition batchSize :: nat where
  "batchSize = 50"

function batchLoop ::
  "upstream \<Rightarrow> string list \<Rightarrow> nat \<Rightarrow> (string \<rightharpoonup> string) \<Rightarrow> string list list
     \<Rightarrow> string list list \<times> (error + (string \<rightharpoonup> string))" where
  "batchLoop up videoIds i videoDurations issued =
     (if i < length videoIds then
        (let batchIds = take batchSize (drop i videoIds) in
         case videosApi up batchIds of
           Inl e \<Rightarrow> (issued @ [batchIds], Inl e)
         | Inr videoData \<Rightarrow>
             batchLoop up videoIds (i + batchSize)
               (case videoData of None \<Rightarrow> videoDurations
                                | Some vs \<Rightarrow> storeDurations videoDurations vs)
               (issued @ [batchIds]))
      else (issued, Inr videoDurations))"
  by pat_completeness auto
termination
  by (relation "measure (\<lambda>(up, videoIds, i, videoDurations, issued). length videoIds - i)")
     (auto simp: batchSize_def)

definition fetchDurations ::
  "upstream \<Rightarrow> string list \<Rightarrow> string list list \<times> (error + (string \<rightharpoonup> string))" where
  "fetchDurations up videoIds = batchLoop up videoIds 0 Map.empty []"

section \<open>Channel fetch orchestrator (lines 187--322)\<close>

record app_state =
  channels :: "channel list"
  videos :: "item list"
  apiKey :: string
  fetchSettings :: FetchSettings
  showSettingsDropdown :: bool
  isLoadingVideos :: bool

text \<open>\<open>playlistData.items.map(item => item.snippet?.resourceId?.videoId).filter(Boolean)\<close>\<close>

fun collectVideoIds :: "playlist_entry list \<Rightarrow> string list" where
  "collectVideoIds [] = []"
| "collectVideoIds (e # es) =
     (case pl_videoId e of
        None \<Rightarrow> collectVideoIds es
      | Some v \<Rightarrow> if v = [] then collectVideoIds es else v # collectVideoIds es)"

text \<open>One turn of the loop over the playlist entries (lines 247--291): what it pushes.\<close>

definition videoItem ::
  "channel \<Rightarrow> int \<Rightarrow> FetchSettings \<Rightarrow> (string \<rightharpoonup> string) \<Rightarrow> playlist_entry \<Rightarrow> item list" where
  "videoItem ch cutoff fs videoDurations e =
     (if skipVideo cutoff fs (pl_publishedAt e) then []
      else
        (let videoId = pl_videoId e;
             (duration, ty) = classify videoId videoDurations
         in if (ty = LongForm \<and> longForm (channel_contentTypes ch)) \<or>
               (ty = Shorts \<and> shorts (channel_contentTypes ch))
            then [Video (orElse videoId '''') (pl_title e) (orElse (pl_thumbnail e) '''')
                        (channel_name ch) (channel_id ch) (pl_publishedAt e) '''' duration ty]
            else []))"

text \<open>One turn of the loop over the activities (lines 301--317): what it pushes.\<close>

definition communityId :: "activity \<Rightarrow> string" where
  "communityId a = orElse (map_option (take 50) (act_description a)) (act_id a)"

definition communityItem :: "channel \<Rightarrow> int \<Rightarrow> FetchSettings \<Rightarrow> activity \<Rightarrow> item list" where
  "communityItem ch cutoff fs a =
     (if act_type a = ''community'' then
        (if keepCommunity cutoff fs (act_publishedAt a)
         then [CommunityPost (communityId a) (orElse (act_description a) ''Community post'')
                 (orElse (act_thumbnail a) '''') (channel_name ch) (channel_id ch)
                 (act_publishedAt a) Community]
         else [])
      else [])"

text \<open>
  Lines 198--214: the cached uploads playlist id, or one lookup whose result is written back
  to the registry with \<open>setChannels(prev => prev.map(...))\<close>.
\<close>

definition resolveUploads ::
  "upstream \<Rightarrow> app_state \<Rightarrow> channel \<Rightarrow> app_state \<times> (error + string option)" where
  "resolveUploads up st ch =
     (if truthy (uploadsPlaylistId ch) then (st, Inr (uploadsPlaylistId ch))
      else
        (case channelsApi up (channel_id ch) of
           Inl e \<Rightarrow> (st, Inl e)
         | Inr u \<Rightarrow>
             ((if truthy u
               then st\<lparr>channels :=
                         map (\<lambda>c. if channel_id c = channel_id ch
                                   then c\<lparr>uploadsPlaylistId := u\<rparr> else c) (channels st)\<rparr>
               else st), Inr u)))"

text \<open>Lines 216--293: the uploads playlist, the durations and the loop over the entries.\<close>

definition uploadItems ::
  "upstream \<Rightarrow> FetchSettings \<Rightarrow> channel \<Rightarrow> string option \<Rightarrow> error + item list" where
  "uploadItems up fs ch upl =
     (if truthy upl \<and> (longForm (channel_contentTypes ch) \<or> shorts (channel_contentTypes ch))
      then
        (case playlistItemsApi up (orElse upl '''') (maxVideosPerChannel fs * 2) of
           Inl e \<Rightarrow> Inl e
         | Inr None \<Rightarrow> Inr []
         | Inr (Some entries) \<Rightarrow>
             (if length entries > 0 then
                (case snd (fetchDurations up (collectVideoIds entries)) of
                   Inl e \<Rightarrow> Inl e
                 | Inr videoDurations \<Rightarrow>
                     Inr (concat (map (videoItem ch (cutoffDate up fs) fs videoDurations) entries)))
              else Inr []))
      else Inr [])"

text \<open>Lines 295--319: the activity feed.\<close>

definition communityItems :: "upstream \<Rightarrow> FetchSettings \<Rightarrow> channel \<Rightarrow> error + item list" where
  "communityItems up fs ch =
     (if community (channel_contentTypes ch) then
        (case activitiesApi up (channel_id ch) (maxVideosPerChannel fs) of
           Inl e \<Rightarrow> Inl e
         | Inr None \<Rightarrow> Inr []
         | Inr (Some acts) \<Rightarrow> Inr (concat (map (communityItem ch (cutoffDate up fs) fs) acts)))
      else Inr [])"

text \<open>
  The whole function. Without a credential it opens the settings panel
  (\<open>requestApiKey\<close>) and returns no item. An exception leaves the registry update of
  \<open>resolveUploads\<close> in place.
\<close>

definition fetchChannelVideos ::
  "upstream \<Rightarrow> app_state \<Rightarrow> channel \<Rightarrow> app_state \<times> (error + item list)" where
  "fetchChannelVideos up st ch =
     (if apiKey st = [] then (st\<lparr>showSettingsDropdown := True\<rparr>, Inr [])
      else
        (case resolveUploads up st ch of
           (st', Inl e) \<Rightarrow> (st', Inl e)
         | (st', Inr upl) \<Rightarrow>
             (case uploadItems up (fetchSettings st) ch upl of
                Inl e \<Rightarrow> (st', Inl e)
              | Inr vs \<Rightarrow>
                  (case communityItems up (fetchSettings st) ch of
                     Inl e \<Rightarrow> (st', Inl e)
                   | Inr ps \<Rightarrow> (st', Inr (vs @ ps))))))"

section \<open>Merge (lines 105--107 and 382--389) and sort\<close>

fun typeName :: "content_type \<Rightarrow> string" where
  "typeName LongForm = ''longForm''"
| "typeName Shorts = ''shorts''"
| "typeName Community = ''community''"

definition buildVideoKey :: "item \<Rightarrow> string" where
  "buildVideoKey it = typeName (type it) @ ''-'' @ channelId it @ ''-'' @ item_id it"

text \<open>
  A JavaScript \<open>Map\<close> keeps its entries in insertion order; \<open>set\<close> on a key that is present
  replaces the value where the entry stands, and appends otherwise.
\<close>

fun mapSet :: "('k \<times> 'v) list \<Rightarrow> 'k \<Rightarrow> 'v \<Rightarrow> ('k \<times> 'v) list" where
  "mapSet [] k v = [(k, v)]"
| "mapSet ((k', v') # m) k v = (if k' = k then (k, v) # m else (k', v') # mapSet m k v)"

text \<open>\<open>new Map(entries)\<close> sets the entries one after the other.\<close>

definition newMap :: "('k \<times> 'v) list \<Rightarrow> ('k \<times> 'v) list" where
  "newMap entries = foldl (\<lambda>m (k, v). mapSet m k v) [] entries"

text \<open>
  \<open>sort((a, b) => new Date(b.publishedAt).getTime() - new Date(a.publishedAt).getTime())\<close>.
  \<open>Array.prototype.sort\<close> is stable, so its result is the one that insertion from the right
  computes.
\<close>

definition compareFn :: "item \<Rightarrow> item \<Rightarrow> int" where
  "compareFn a b = publishedAt b - publishedAt a"

fun insertSorted :: "item \<Rightarrow> item list \<Rightarrow> item list" where
  "insertSorted x [] = [x]"
| "insertSorted x (y # ys) = (if compareFn x y \<le> 0 then x # y # ys else y # insertSorted x ys)"

definition sortByPublished :: "item list \<Rightarrow> item list" where
  "sortByPublished xs = foldr insertSorted xs []"

text \<open>The updater passed to \<open>setVideos\<close> in \<open>addChannel\<close>.\<close>

definition mergeVideos :: "item list \<Rightarrow> item list \<Rightarrow> item list" where
  "mergeVideos prev newVideos =
     (let nextMap = newMap (map (\<lambda>it. (buildVideoKey it, it)) prev);
          nextMap' = foldl (\<lambda>m it. mapSet m (buildVideoKey it) it) nextMap newVideos
      in sortByPublished (map snd nextMap'))"

section \<open>\<open>addChannel\<close> (lines 350--397) and \<open>fetchVideos\<close> (lines 428--449)\<close>

text \<open>A search result: \<open>id.channelId\<close>, \<open>snippet.title\<close> and the three thumbnail sizes.\<close>

record search_result =
  sr_channelId :: string
  sr_title :: string
  sr_high :: "string option"
  sr_medium :: "string option"
  sr_default :: "string option"

definition getSnippetThumbnail :: "search_result \<Rightarrow> string" where
  "getSnippetThumbnail r = orElse (sr_high r) (orElse (sr_medium r) (orElse (sr_default r) ''''))"

text \<open>
  Both functions are \<open>async\<close>; the model gives how the promise settles, \<open>Inl\<close> for a
  rejection and \<open>Inr\<close> for the state it leaves. The search box fields that \<open>addChannel\<close>
  clears at its end are not part of the state.

  \<open>addChannel\<close> is created anew at each render. Its duplicate test (line 376) reads
  \<open>channels\<close> as it was at that render, after the handler has waited for the upstream once;
  the updaters \<open>setChannels(prev => ...)\<close> (line 378) and \<open>setVideos(prev => ...)\<close>
  (line 382) act on the live state. The model therefore takes both: \<open>rendered\<close>, the
  registry the handler closed over, and \<open>st\<close>, the state its updaters meet. The
  credential and the fetch settings belong to the render as well; nothing modelled here
  changes them, so they are read from \<open>st\<close>.
\<close>

definition newChannelOf :: "upstream \<Rightarrow> search_result \<Rightarrow> channel" where
  "newChannelOf up r =
     \<lparr>channel_id = sr_channelId r, channel_name = sr_title r,
      channel_thumbnail = getSnippetThumbnail r,
      uploadsPlaylistId =
        Some (case channelsApi up (sr_channelId r) of Inl e \<Rightarrow> '''' | Inr u \<Rightarrow> orElse u ''''),
      channel_contentTypes = \<lparr>longForm = True, shorts = True, community = False\<rparr>\<rparr>"

definition addChannel ::
  "upstream \<Rightarrow> channel list \<Rightarrow> app_state \<Rightarrow> search_result \<Rightarrow> error + app_state" where
  "addChannel up rendered st r =
     (let newChannel = newChannelOf up r;
          alreadyAdded = find (\<lambda>c. channel_id c = channel_id newChannel) rendered
      in if alreadyAdded = None then
           (case fetchChannelVideos up (st\<lparr>channels := channels st @ [newChannel]\<rparr>) newChannel of
              (st', Inl e) \<Rightarrow> Inr st'
            | (st', Inr newVideos) \<Rightarrow>
                if length newVideos > 0
                then Inr (st'\<lparr>videos := mergeVideos (videos st') newVideos\<rparr>)
                else Inr st')
         else Inr st)"

text \<open>The loop over the registry with its \<open>try\<close>/\<open>catch\<close> around each channel.\<close>

fun fetchLoop ::
  "upstream \<Rightarrow> app_state \<Rightarrow> channel list \<Rightarrow> item list \<Rightarrow> app_state \<times> item list" where
  "fetchLoop up st [] allVideos = (st, allVideos)"
| "fetchLoop up st (ch # rest) allVideos =
     (case fetchChannelVideos up st ch of
        (st', Inl e) \<Rightarrow> fetchLoop up st' rest allVideos
      | (st', Inr channelItems) \<Rightarrow> fetchLoop up st' rest (allVideos @ channelItems))"

definition fetchVideos :: "upstream \<Rightarrow> app_state \<Rightarrow> error + app_state" where
  "fetchVideos up st =
     (if length (channels st) = 0 then Inr st
      else if apiKey st = [] then Inr (st\<lparr>showSettingsDropdown := True\<rparr>)
      else
        (case fetchLoop up (st\<lparr>isLoadingVideos := True\<rparr>) (channels st) [] of
           (st', allVideos) \<Rightarrow>
             Inr (st'\<lparr>videos := sortByPublished allVideos, isLoadingVideos := False\<rparr>)))"

section \<open>Feed cache (lines 76--87 and 146--153)\<close>

text \<open>The value stored under \<open>cachedVideos\<close> in \<open>localStorage\<close>, if any.\<close>

record cache_entry =
  cached_videos :: "item list"
  cached_timestamp :: int

definition loadCachedVideos :: "int \<Rightarrow> cache_entry option \<Rightarrow> item list" where
  "loadCachedVideos now saved =
     (case saved of
        None \<Rightarrow> []
      | Some data \<Rightarrow>
          (let oneDayAgo = now - 24 * 60 * 60 * 1000
           in if cached_timestamp data > oneDayAgo then cached_videos data else []))"

definition cacheVideos :: "int \<Rightarrow> item list \<Rightarrow> cache_entry option \<Rightarrow> cache_entry option" where
  "cacheVideos now vs saved =
     (if length vs > 0 then Some \<lparr>cached_videos = vs, cached_timestamp = now\<rparr> else saved)"

section \<open>Notions of the specification\<close>

text \<open>
  The feed is in order when the published timestamps do not increase along it.
\<close>

definition nonIncreasing :: "item list \<Rightarrow> bool" where
  "nonIncreasing xs = sorted_wrt (\<lambda>a b. publishedAt b \<le> publishedAt a) xs"

text \<open>
  The composite key in the words of the specification: kind, channel identifier and item
  identifier. The code's key is the string \<open>buildVideoKey\<close>.
\<close>

definition compositeKey :: "item \<Rightarrow> content_type \<times> string \<times> string" where
  "compositeKey it = (type it, channelId it, item_id it)"

text \<open>
  What one channel contributes to a refresh: its items, or nothing when its fetch threw. The
  per-channel results of a refresh are the contributions in registry order.
\<close>

definition channelContribution :: "upstream \<Rightarrow> app_state \<Rightarrow> channel \<Rightarrow> item list" where
  "channelContribution up st ch =
     (case snd (fetchChannelVideos up st ch) of Inl e \<Rightarrow> [] | Inr channelItems \<Rightarrow> channelItems)"

definition perChannelResults :: "upstream \<Rightarrow> app_state \<Rightarrow> item list" where
  "perChannelResults up st = concat (map (channelContribution up st) (channels st))"

text \<open>
  The batches of the detail fetcher as the specification describes them: consecutive slices
  of at most 50 identifiers, \<open>\<lceil>N/50\<rceil>\<close> of them; and the videos that the body
  answering one batch carries.
\<close>

definition batches :: "string list \<Rightarrow> string list list" where
  "batches videoIds =
     map (\<lambda>k. take batchSize (drop (k * batchSize) videoIds))
       [0..<(length videoIds + batchSize - 1) div batchSize]"

definition batchItems :: "upstream \<Rightarrow> string list \<Rightarrow> video_detail list" where
  "batchItems up batchIds =
     (case videosApi up batchIds of Inr (Some vs) \<Rightarrow> vs | _ \<Rightarrow> [])"

text \<open>
  The batch loop as a recursion over the list of batches, used to reason about
  \<open>batchLoop\<close>.
\<close>

fun runBatches ::
  "upstream \<Rightarrow> string list list \<Rightarrow> (string \<rightharpoonup> string) \<Rightarrow> string list list
     \<Rightarrow> string list list \<times> (error + (string \<rightharpoonup> string))" where
  "runBatches up [] m issued = (issued, Inr m)"
| "runBatches up (b # bs) m issued =
     (case videosApi up b of
        Inl e \<Rightarrow> (issued @ [b], Inl e)
      | Inr d \<Rightarrow> runBatches up bs (case d of None \<Rightarrow> m | Some vs \<Rightarrow> storeDurations m vs) (issued @ [b]))"

section \<open>A concrete scenario\<close>

text \<open>
  Channel A's uploads playlist cannot be fetched; channel B has three uploads of 45 seconds,
  5 minutes and 10 minutes 30 seconds; channel C shows community posts only, and its two posts
  carry the same text.
\<close>

definition channelA :: channel where
  "channelA = \<lparr>channel_id = ''UC_A'', channel_name = ''A'', channel_thumbnail = '''',
      uploadsPlaylistId = Some ''UU_A'',
      channel_contentTypes = \<lparr>longForm = True, shorts = True, community = False\<rparr>\<rparr>"

definition channelB :: channel where
  "channelB = \<lparr>channel_id = ''UC_B'', channel_name = ''B'', channel_thumbnail = '''',
      uploadsPlaylistId = Some ''UU_B'',
      channel_contentTypes = \<lparr>longForm = True, shorts = True, community = False\<rparr>\<rparr>"

definition channelC :: channel where
  "channelC = \<lparr>channel_id = ''UC_C'', channel_name = ''C'', channel_thumbnail = '''',
      uploadsPlaylistId = Some ''UU_C'',
      channel_contentTypes = \<lparr>longForm = False, shorts = False, community = True\<rparr>\<rparr>"

definition scenarioUpstream :: upstream where
  "scenarioUpstream =
     \<lparr>channelsApi = (\<lambda>i. if i = ''UC_B'' then Inr (Some ''UU_B'') else Inr None),
      playlistItemsApi = (\<lambda>p n. if p = ''UU_A'' then Inl FetchRejected
         else Inr (Some [\<lparr>pl_title = ''one'', pl_publishedAt = 200, pl_thumbnail = None, pl_videoId = Some ''b1''\<rparr>,
                         \<lparr>pl_title = ''two'', pl_publishedAt = 300, pl_thumbnail = None, pl_videoId = Some ''b2''\<rparr>,
                         \<lparr>pl_title = ''three'', pl_publishedAt = 100, pl_thumbnail = None, pl_videoId = Some ''b3''\<rparr>])),
      videosApi = (\<lambda>ids. Inr (Some [\<lparr>vd_id = ''b1'', vd_duration = ''PT45S''\<rparr>,
                                     \<lparr>vd_id = ''b2'', vd_duration = ''PT5M''\<rparr>,
                                     \<lparr>vd_id = ''b3'', vd_duration = ''PT10M30S''\<rparr>])),
      activitiesApi = (\<lambda>c n. Inr (Some
          [\<lparr>act_id = ''p1'', act_type = ''community'', act_publishedAt = 10,
            act_description = Some ''Hello'', act_thumbnail = None\<rparr>,
           \<lparr>act_id = ''p2'', act_type = ''community'', act_publishedAt = 20,
            act_description = Some ''Hello'', act_thumbnail = None\<rparr>])),
      clock = 1000, localTZA = (\<lambda>t isUTC. 3600000)\<rparr>"

definition scenarioState :: "channel list \<Rightarrow> app_state" where
  "scenarioState chs =
     \<lparr>channels = chs, videos = [], apiKey = ''key'',
      fetchSettings = \<lparr>maxVideosPerChannel = 10, timeRangeDays = 0\<rparr>,
      showSettingsDropdown = False, isLoadingVideos = False\<rparr>"

definition searchResultB :: search_result where
  "searchResultB = \<lparr>sr_channelId = ''UC_B'', sr_title = ''B'', sr_high = None,
      sr_medium = None, sr_default = None\<rparr>"

definition helloPost :: activity where
  "helloPost = \<lparr>act_id = ''p1'', act_type = ''community'', act_publishedAt = 10,
      act_description = Some ''Hello'', act_thumbnail = None\<rparr>"

text \<open>
  101 identifiers, and two variants of the upstream: in one the request for the second batch
  throws, in the other it is answered by a body without \<open>items\<close>.
\<close>

definition manyIds :: "string list" where
  "manyIds = replicate 50 ''a'' @ replicate 50 ''b'' @ [''c'']"

definition throwingUpstream :: upstream where
  "throwingUpstream = scenarioUpstream\<lparr>videosApi :=
      (\<lambda>b. if b = replicate 50 ''b'' then Inl FetchRejected
           else Inr (Some (map (\<lambda>i. \<lparr>vd_id = i, vd_duration = ''PT5M''\<rparr>) (take 1 b))))\<rparr>"

definition errorBodyUpstream :: upstream where
  "errorBodyUpstream = scenarioUpstream\<lparr>videosApi :=
      (\<lambda>b. if b = replicate 50 ''b'' then Inr None
           else Inr (Some (map (\<lambda>i. \<lparr>vd_id = i, vd_duration = ''PT5M''\<rparr>) (take 1 b))))\<rparr>"



lemmas scenario_defs =
  channelA_def channelB_def channelC_def scenarioUpstream_def scenarioState_def

lemmas orchestrator_defs =
  fetchVideos_def fetchChannelVideos_def resolveUploads_def uploadItems_def communityItems_def
  fetchDurations_def videoItem_def communityItem_def communityId_def classify_def totalSeconds_def
  optGroup_def isDigit_def parseInt_def digitVal_def skipVideo_def keepCommunity_def cutoffDate_def
  setDateBack_def msPerDay_def
  batchSize_def sortByPublished_def compareFn_def Let_def

section \<open>Auxiliary lemmas\<close>

lemma set_insertSorted: "set (insertSorted x ys) = insert x (set ys)"
  by (induction ys) auto

lemma mset_insertSorted: "mset (insertSorted x ys) = add_mset x (mset ys)"
  by (induction ys) auto

lemma mset_sortByPublished: "mset (sortByPublished xs) = mset xs"
  by (induction xs) (simp_all add: sortByPublished_def mset_insertSorted)

lemma set_sortByPublished: "set (sortByPublished xs) = set xs"
  using mset_sortByPublished [of xs] by (metis set_mset_mset)

lemma length_sortByPublished: "length (sortByPublished xs) = length xs"
  using mset_sortByPublished [of xs] by (metis size_mset)

lemma nonIncreasing_insertSorted:
  "nonIncreasing ys \<Longrightarrow> nonIncreasing (insertSorted x ys)"
  by (induction ys) (auto simp: nonIncreasing_def compareFn_def set_insertSorted)

lemma nonIncreasing_sortByPublished: "nonIncreasing (sortByPublished xs)"
proof (induction xs)
  case Nil
  show ?case by (simp add: sortByPublished_def nonIncreasing_def)
next
  case (Cons x xs)
  then show ?case
    using nonIncreasing_insertSorted [of "sortByPublished xs" x]
    by (simp add: sortByPublished_def)
qed

lemma insertSorted_id:
  "nonIncreasing (x # ys) \<Longrightarrow> insertSorted x ys = x # ys"
  by (cases ys) (auto simp: nonIncreasing_def compareFn_def)

lemma sortByPublished_id: "nonIncreasing xs \<Longrightarrow> sortByPublished xs = xs"
proof (induction xs)
  case Nil
  show ?case by (simp add: sortByPublished_def)
next
  case (Cons x xs)
  have "nonIncreasing xs" using Cons.prems by (simp add: nonIncreasing_def)
  then have "sortByPublished xs = xs" by (rule Cons.IH)
  then show ?case using insertSorted_id [OF Cons.prems] by (simp add: sortByPublished_def)
qed

lemma distinct_keys_sortByPublished:
  "distinct (map f (sortByPublished xs)) = distinct (map f xs)"
proof -
  have "mset (map f (sortByPublished xs)) = mset (map f xs)"
    by (metis mset_map mset_sortByPublished)
  then show ?thesis by (rule mset_eq_imp_distinct_iff)
qed

lemma keys_mapSet:
  "map fst (mapSet m k v) = (if k \<in> fst ` set m then map fst m else map fst m @ [k])"
  by (induction m) (force split: if_splits)+

lemma length_mapSet_present: "k \<in> fst ` set m \<Longrightarrow> length (mapSet m k v) = length m"
  using keys_mapSet [of m k v] by (metis length_map)

lemma mapSet_absent: "k \<notin> fst ` set m \<Longrightarrow> mapSet m k v = m @ [(k, v)]"
  by (induction m) auto

lemma distinct_mapSet: "distinct (map fst m) \<Longrightarrow> distinct (map fst (mapSet m k v))"
  by (simp add: keys_mapSet)

lemma set_mapSet:
  "distinct (map fst m) \<Longrightarrow> set (mapSet m k v) = insert (k, v) {p \<in> set m. fst p \<noteq> k}"
  by (induction m) (force split: if_splits)+

lemma mapSet_member: "(k, v) \<in> set (mapSet m k v)"
  by (induction m) auto

lemma mapSet_others: "p \<in> set m \<Longrightarrow> fst p \<noteq> k \<Longrightarrow> p \<in> set (mapSet m k v)"
  by (induction m) auto

lemma buildVideoKey_compositeKey:
  "compositeKey a = compositeKey b \<Longrightarrow> buildVideoKey a = buildVideoKey b"
  by (simp add: compositeKey_def buildVideoKey_def)

lemma newMap_keyed:
  "newMap (map (\<lambda>it. (buildVideoKey it, it)) prev) =
     foldl (\<lambda>m it. mapSet m (buildVideoKey it) it) [] prev"
  by (simp add: newMap_def foldl_map)

lemma mergeVideos_fold:
  "mergeVideos prev newVideos =
     sortByPublished (map snd (foldl (\<lambda>m it. mapSet m (buildVideoKey it) it) [] (prev @ newVideos)))"
  by (simp add: mergeVideos_def newMap_keyed Let_def)

lemma mergeFold_distinct:
  "distinct (map fst (foldl (\<lambda>m it. mapSet m (buildVideoKey it) it) [] xs))"
  by (induction xs rule: rev_induct) (simp_all add: distinct_mapSet)

lemma mergeFold_keyed:
  "p \<in> set (foldl (\<lambda>m it. mapSet m (buildVideoKey it) it) [] xs) \<Longrightarrow> fst p = buildVideoKey (snd p)"
proof (induction xs arbitrary: p rule: rev_induct)
  case Nil
  then show ?case by simp
next
  case (snoc x xs)
  have "set (foldl (\<lambda>m it. mapSet m (buildVideoKey it) it) [] (xs @ [x])) =
      insert (buildVideoKey x, x)
        {p \<in> set (foldl (\<lambda>m it. mapSet m (buildVideoKey it) it) [] xs). fst p \<noteq> buildVideoKey x}"
    using set_mapSet [OF mergeFold_distinct [of xs], of "buildVideoKey x" x] by simp
  with snoc.prems have "p = (buildVideoKey x, x) \<or>
      p \<in> set (foldl (\<lambda>m it. mapSet m (buildVideoKey it) it) [] xs)" by blast
  then show ?case using snoc.IH by fastforce
qed

lemma mergeFold_set:
  "snd ` set (foldl (\<lambda>m it. mapSet m (buildVideoKey it) it) [] xs) =
     {x. \<exists>ys zs. xs = ys @ x # zs \<and> buildVideoKey x \<notin> buildVideoKey ` set zs}"
  (is "snd ` set (?F xs) = ?L xs")
proof (induction xs rule: rev_induct)
  case Nil
  show ?case by simp
next
  case (snoc x xs)
  have step: "set (?F (xs @ [x])) =
      insert (buildVideoKey x, x) {p \<in> set (?F xs). fst p \<noteq> buildVideoKey x}"
    using set_mapSet [OF mergeFold_distinct [of xs], of "buildVideoKey x" x] by simp
  have keyed: "\<And>p. p \<in> set (?F xs) \<Longrightarrow> fst p = buildVideoKey (snd p)"
    by (rule mergeFold_keyed)
  have old: "snd ` {p \<in> set (?F xs). fst p \<noteq> buildVideoKey x} =
      {y \<in> ?L xs. buildVideoKey y \<noteq> buildVideoKey x}"
  proof (rule set_eqI, rule iffI)
    fix y
    assume "y \<in> snd ` {p \<in> set (?F xs). fst p \<noteq> buildVideoKey x}"
    then obtain p where p: "p \<in> set (?F xs)" "fst p \<noteq> buildVideoKey x" "y = snd p" by blast
    then have "y \<in> snd ` set (?F xs)" by blast
    moreover have "buildVideoKey y \<noteq> buildVideoKey x" using keyed [OF p(1)] p(2,3) by simp
    ultimately show "y \<in> {y \<in> ?L xs. buildVideoKey y \<noteq> buildVideoKey x}"
      using snoc.IH by simp
  next
    fix y
    assume "y \<in> {y \<in> ?L xs. buildVideoKey y \<noteq> buildVideoKey x}"
    then have "y \<in> snd ` set (?F xs)" and ne: "buildVideoKey y \<noteq> buildVideoKey x"
      using snoc.IH by simp_all
    then obtain p where p: "p \<in> set (?F xs)" "y = snd p" by blast
    then have "fst p \<noteq> buildVideoKey x" using keyed [OF p(1)] ne by simp
    with p show "y \<in> snd ` {p \<in> set (?F xs). fst p \<noteq> buildVideoKey x}" by blast
  qed
  have last: "?L (xs @ [x]) = insert x {y \<in> ?L xs. buildVideoKey y \<noteq> buildVideoKey x}"
  proof (rule set_eqI, rule iffI)
    fix y
    assume "y \<in> ?L (xs @ [x])"
    then obtain ys zs where d: "xs @ [x] = ys @ y # zs" and n: "buildVideoKey y \<notin> buildVideoKey ` set zs"
      by blast
    show "y \<in> insert x {y \<in> ?L xs. buildVideoKey y \<noteq> buildVideoKey x}"
    proof (cases zs rule: rev_cases)
      case Nil
      with d show ?thesis by simp
    next
      case (snoc zs' z)
      with d have "xs = ys @ y # zs'" and "z = x" by simp_all
      moreover have "buildVideoKey y \<notin> buildVideoKey ` set zs'" "buildVideoKey y \<noteq> buildVideoKey x"
        using n snoc \<open>z = x\<close> by auto
      ultimately show ?thesis by blast
    qed
  next
    fix y
    assume "y \<in> insert x {y \<in> ?L xs. buildVideoKey y \<noteq> buildVideoKey x}"
    then consider "y = x" | "y \<in> ?L xs" "buildVideoKey y \<noteq> buildVideoKey x" by blast
    then show "y \<in> ?L (xs @ [x])"
    proof cases
      case 1
      then have "xs @ [x] = xs @ y # [] \<and> buildVideoKey y \<notin> buildVideoKey ` set []" by simp
      then show ?thesis by blast
    next
      case 2
      then obtain ys zs where "xs = ys @ y # zs" "buildVideoKey y \<notin> buildVideoKey ` set zs" by blast
      with 2 have "xs @ [x] = ys @ y # (zs @ [x])" "buildVideoKey y \<notin> buildVideoKey ` set (zs @ [x])"
        by auto
      then show ?thesis by blast
    qed
  qed
  show ?case using step old last by simp
qed

lemma mergeVideos_set:
  "set (mergeVideos prev newVideos) =
     {x. \<exists>ys zs. prev @ newVideos = ys @ x # zs \<and> buildVideoKey x \<notin> buildVideoKey ` set zs}"
  using mergeFold_set [of "prev @ newVideos"]
  by (simp add: mergeVideos_fold set_sortByPublished)

lemma mergeFold_values_keys:
  "map buildVideoKey (map snd (foldl (\<lambda>m it. mapSet m (buildVideoKey it) it) [] xs)) =
     map fst (foldl (\<lambda>m it. mapSet m (buildVideoKey it) it) [] xs)"
  using mergeFold_keyed [of _ xs] by simp

lemma mergeVideos_distinct_keys: "distinct (map buildVideoKey (mergeVideos prev newVideos))"
  using mergeFold_distinct [of "prev @ newVideos"]
  by (simp only: mergeVideos_fold distinct_keys_sortByPublished mergeFold_values_keys)

lemma distinct_compositeKey:
  "distinct (map buildVideoKey xs) \<Longrightarrow> distinct (map compositeKey xs)"
proof -
  assume d: "distinct (map buildVideoKey xs)"
  have "map buildVideoKey xs = map (\<lambda>(t, c, i). typeName t @ ''-'' @ c @ ''-'' @ i) (map compositeKey xs)"
    by (simp add: buildVideoKey_def compositeKey_def)
  with d show ?thesis by (metis distinct_map)
qed

lemma mergeFold_distinct_input:
  "distinct (map buildVideoKey xs) \<Longrightarrow>
     foldl (\<lambda>m it. mapSet m (buildVideoKey it) it) [] xs = map (\<lambda>it. (buildVideoKey it, it)) xs"
proof (induction xs rule: rev_induct)
  case Nil
  show ?case by simp
next
  case (snoc x xs)
  then have ih: "foldl (\<lambda>m it. mapSet m (buildVideoKey it) it) [] xs = map (\<lambda>it. (buildVideoKey it, it)) xs"
    and fresh: "buildVideoKey x \<notin> buildVideoKey ` set xs" by simp_all
  have "buildVideoKey x \<notin> fst ` set (map (\<lambda>it. (buildVideoKey it, it)) xs)"
    using fresh by (auto simp: image_iff)
  then show ?case using ih by (simp add: mapSet_absent)
qed

lemma mergeVideos_empty_distinct:
  "distinct (map buildVideoKey xs) \<Longrightarrow> mergeVideos [] xs = sortByPublished xs"
  by (simp add: mergeVideos_fold mergeFold_distinct_input comp_def)

lemma resolveUploads_state:
  "fst (resolveUploads up st ch) = st \<or>
   (\<exists>u. fst (resolveUploads up st ch) =
      st\<lparr>channels := map (\<lambda>c. if channel_id c = channel_id ch then c\<lparr>uploadsPlaylistId := u\<rparr> else c) (channels st)\<rparr>)"
proof (cases "truthy (uploadsPlaylistId ch)")
  case True
  then show ?thesis by (simp add: resolveUploads_def)
next
  case False
  show ?thesis
  proof (cases "channelsApi up (channel_id ch)")
    case (Inl e)
    with False show ?thesis by (simp add: resolveUploads_def)
  next
    case (Inr u)
    with False show ?thesis by (cases "truthy u") (simp_all add: resolveUploads_def, blast)
  qed
qed

lemma resolveUploads_result:
  "snd (resolveUploads up st ch) = snd (resolveUploads up st2 ch)"
  by (simp add: resolveUploads_def split: sum.splits)

lemma fetchChannelVideos_state:
  "fst (fetchChannelVideos up st ch) = st\<lparr>showSettingsDropdown := True\<rparr> \<or>
   fst (fetchChannelVideos up st ch) = fst (resolveUploads up st ch)"
  by (cases "resolveUploads up st ch")
     (simp add: fetchChannelVideos_def split: sum.splits)

lemma fetchChannelVideos_frame:
  "videos (fst (fetchChannelVideos up st ch)) = videos st \<and>
   apiKey (fst (fetchChannelVideos up st ch)) = apiKey st \<and>
   fetchSettings (fst (fetchChannelVideos up st ch)) = fetchSettings st"
  using fetchChannelVideos_state [of up st ch] resolveUploads_state [of up st ch]
  by (elim disjE exE) simp_all


lemma fetchChannelVideos_result:
  assumes "apiKey st2 = apiKey st" "fetchSettings st2 = fetchSettings st"
  shows "snd (fetchChannelVideos up st2 ch) = snd (fetchChannelVideos up st ch)"
proof -
  obtain a r where 1: "resolveUploads up st ch = (a, r)" by (cases "resolveUploads up st ch")
  obtain b r' where 2: "resolveUploads up st2 ch = (b, r')" by (cases "resolveUploads up st2 ch")
  have "r' = r" using resolveUploads_result [of up st ch st2] 1 2 by simp
  with 1 2 assms show ?thesis
    by (simp add: fetchChannelVideos_def split: sum.splits)
qed

lemma channelContribution_cong:
  "apiKey st2 = apiKey st \<Longrightarrow> fetchSettings st2 = fetchSettings st \<Longrightarrow>
     channelContribution up st2 ch = channelContribution up st ch"
  using fetchChannelVideos_result [of st2 st up ch] by (simp add: channelContribution_def)

lemma fetchLoop_result:
  "fetchLoop up st chs allVideos = (st', res) \<Longrightarrow>
     res = allVideos @ concat (map (channelContribution up st) chs)"
proof (induction chs arbitrary: st allVideos)
  case Nil
  then show ?case by simp
next
  case (Cons ch chs)
  obtain st1 r where f: "fetchChannelVideos up st ch = (st1, r)"
    by (cases "fetchChannelVideos up st ch")
  have fr: "apiKey st1 = apiKey st" "fetchSettings st1 = fetchSettings st"
    using fetchChannelVideos_frame [of up st ch] f by simp_all
  have cc: "channelContribution up st1 = channelContribution up st"
    by (rule ext) (rule channelContribution_cong [OF fr])
  show ?case
  proof (cases r)
    case (Inl e)
    then have head: "channelContribution up st ch = []"
      using f by (simp add: channelContribution_def)
    from Inl f Cons.prems have "fetchLoop up st1 chs allVideos = (st', res)" by simp
    from Cons.IH [OF this] have "res = allVideos @ concat (map (channelContribution up st1) chs)" .
    with cc head show ?thesis by simp
  next
    case (Inr channelItems)
    then have head: "channelContribution up st ch = channelItems"
      using f by (simp add: channelContribution_def)
    from Inr f Cons.prems have "fetchLoop up st1 chs (allVideos @ channelItems) = (st', res)" by simp
    from Cons.IH [OF this]
    have "res = (allVideos @ channelItems) @ concat (map (channelContribution up st1) chs)" .
    with cc head show ?thesis by simp
  qed
qed

lemma fetchVideos_result:
  assumes "channels st \<noteq> []" "apiKey st \<noteq> []"
  shows "\<exists>st'. fetchVideos up st = Inr st' \<and> videos st' = sortByPublished (perChannelResults up st)"
proof -
  obtain st1 res where l: "fetchLoop up (st\<lparr>isLoadingVideos := True\<rparr>) (channels st) [] = (st1, res)"
    by (cases "fetchLoop up (st\<lparr>isLoadingVideos := True\<rparr>) (channels st) []")
  have "channelContribution up (st\<lparr>isLoadingVideos := True\<rparr>) = channelContribution up st"
    by (rule ext) (rule channelContribution_cong, simp_all)
  with fetchLoop_result [OF l] have "res = perChannelResults up st"
    by (simp add: perChannelResults_def)
  with l assms show ?thesis by (simp add: fetchVideos_def)
qed

lemma fetchVideos_total: "\<exists>st'. fetchVideos up st = Inr st'"
  by (simp add: fetchVideos_def split: prod.splits)

lemma batch_count_less: "k < (n + batchSize - 1) div batchSize \<longleftrightarrow> k * batchSize < n"
proof -
  have "k < (n + 49) div 50 \<longleftrightarrow> Suc k \<le> (n + 49) div 50" by (simp add: Suc_le_eq)
  also have "\<dots> \<longleftrightarrow> Suc k * 50 \<le> n + 49" by (simp add: less_eq_div_iff_mult_less_eq)
  also have "\<dots> \<longleftrightarrow> k * 50 < n" by simp arith
  finally show ?thesis by (simp add: batchSize_def add.commute)
qed

lemma batchLoop_runBatches:
  "k \<le> (length ids + batchSize - 1) div batchSize \<Longrightarrow>
     batchLoop up ids (k * batchSize) m issued =
       runBatches up (map (\<lambda>j. take batchSize (drop (j * batchSize) ids))
                        [k..<(length ids + batchSize - 1) div batchSize]) m issued"
proof (induction "(length ids + batchSize - 1) div batchSize - k" arbitrary: k m issued)
  case 0
  then have "k = (length ids + batchSize - 1) div batchSize" by simp
  then have "\<not> k * batchSize < length ids" using batch_count_less [of k "length ids"] by simp
  then show ?case using \<open>k = _\<close> by (subst batchLoop.simps) simp
next
  case (Suc d)
  then have lt: "k < (length ids + batchSize - 1) div batchSize" by simp
  then have run: "k * batchSize < length ids" using batch_count_less [of k "length ids"] by simp
  have upt: "[k..<(length ids + batchSize - 1) div batchSize] =
             k # [Suc k..<(length ids + batchSize - 1) div batchSize]"
    using lt by (rule upt_conv_Cons)
  have ih: "\<And>m issued. batchLoop up ids (Suc k * batchSize) m issued =
       runBatches up (map (\<lambda>j. take batchSize (drop (j * batchSize) ids))
                        [Suc k..<(length ids + batchSize - 1) div batchSize]) m issued"
    using Suc.hyps(1) [of "Suc k"] Suc.hyps(2) lt by simp
  have suc: "k * batchSize + batchSize = Suc k * batchSize" by simp
  show ?case
    by (subst batchLoop.simps, subst upt)
       (simp only: run if_True Let_def list.map runBatches.simps suc ih split: sum.splits)
qed

lemma fetchDurations_runBatches:
  "fetchDurations up ids = runBatches up (batches ids) Map.empty []"
  using batchLoop_runBatches [of 0 ids up Map.empty "[]"]
  by (simp add: fetchDurations_def batches_def)

lemma storeDurations_append:
  "storeDurations m (xs @ ys) = storeDurations (storeDurations m xs) ys"
  by (induction xs arbitrary: m) simp_all

lemma runBatches_no_throw:
  "\<forall>b \<in> set bs. \<not> isl (videosApi up b) \<Longrightarrow>
     runBatches up bs m issued =
       (issued @ bs, Inr (storeDurations m (concat (map (batchItems up) bs))))"
proof (induction bs arbitrary: m issued)
  case Nil
  show ?case by simp
next
  case (Cons b bs)
  then obtain d where d: "videosApi up b = Inr d" by (cases "videosApi up b") auto
  have rest: "\<forall>b \<in> set bs. \<not> isl (videosApi up b)" using Cons.prems by simp
  show ?case
    using d Cons.IH [OF rest]
    by (cases d) (simp_all add: batchItems_def storeDurations_append)
qed

lemma runBatches_throw:
  "j < length bs \<Longrightarrow> videosApi up (bs ! j) = Inl e \<Longrightarrow>
     \<forall>i < j. \<not> isl (videosApi up (bs ! i)) \<Longrightarrow>
     runBatches up bs m issued = (issued @ take (Suc j) bs, Inl e)"
proof (induction bs arbitrary: j m issued)
  case Nil
  then show ?case by simp
next
  case (Cons b bs)
  show ?case
  proof (cases j)
    case 0
    with Cons.prems show ?thesis by simp
  next
    case (Suc j')
    with Cons.prems have "\<not> isl (videosApi up b)" by auto
    then obtain d where d: "videosApi up b = Inr d" by (cases "videosApi up b") auto
    have "j' < length bs" "videosApi up (bs ! j') = Inl e" "\<forall>i < j'. \<not> isl (videosApi up (bs ! i))"
      using Cons.prems Suc by auto
    from Cons.IH [OF this] d Suc show ?thesis by simp
  qed
qed

lemma length_batches: "length (batches ids) = (length ids + 49) div 50"
  by (simp add: batches_def batchSize_def)

lemma batches_size: "b \<in> set (batches ids) \<Longrightarrow> length b \<le> 50"
  by (auto simp: batches_def batchSize_def)

lemma concat_batches_take:
  "concat (map (\<lambda>k. take batchSize (drop (k * batchSize) ids)) [0..<n]) = take (n * batchSize) ids"
proof (induction n)
  case 0
  show ?case by simp
next
  case (Suc n)
  have "take (n * batchSize) ids @ take batchSize (drop (n * batchSize) ids) =
        take (n * batchSize + batchSize) ids"
    by (simp add: take_add)
  with Suc show ?case by (simp add: add.commute)
qed

lemma concat_batches: "concat (batches ids) = ids"
proof -
  have "\<not> ((length ids + batchSize - 1) div batchSize) * batchSize < length ids"
    using batch_count_less [of "(length ids + batchSize - 1) div batchSize" "length ids"] by simp
  then have "length ids \<le> ((length ids + batchSize - 1) div batchSize) * batchSize"
    by simp
  then show ?thesis by (simp add: batches_def concat_batches_take)
qed






lemma addChannel_total: "\<exists>st'. addChannel up rendered st r = Inr st'"
  by (simp add: addChannel_def Let_def split: prod.splits sum.splits)

lemma addChannel_videos:
  assumes "addChannel up rendered st r = Inr st'"
  shows "videos st' = videos st \<or> (\<exists>newVideos. videos st' = mergeVideos (videos st) newVideos)"
proof (cases "find (\<lambda>c. channel_id c = channel_id (newChannelOf up r)) rendered = None")
  case False
  with assms show ?thesis by (simp add: addChannel_def Let_def)
next
  case True
  let ?st1 = "st\<lparr>channels := channels st @ [newChannelOf up r]\<rparr>"
  obtain st2 res where f: "fetchChannelVideos up ?st1 (newChannelOf up r) = (st2, res)"
    by (cases "fetchChannelVideos up ?st1 (newChannelOf up r)")
  have v: "videos st2 = videos st"
    using fetchChannelVideos_frame [of up ?st1 "newChannelOf up r"] f by simp
  show ?thesis
  proof (cases res)
    case (Inl e)
    with assms True f have "st' = st2" by (simp add: addChannel_def Let_def)
    with v show ?thesis by simp
  next
    case (Inr newVideos)
    show ?thesis
    proof (cases "length newVideos > 0")
      case False
      with assms True f Inr have "st' = st2" by (simp add: addChannel_def Let_def)
      with v show ?thesis by simp
    next
      case len: True
      with assms True f Inr have "st' = st2\<lparr>videos := mergeVideos (videos st2) newVideos\<rparr>"
        by (simp add: addChannel_def Let_def)
      with v have "videos st' = mergeVideos (videos st) newVideos" by simp
      then show ?thesis by blast
    qed
  qed
qed

lemma fetchVideos_videos:
  assumes "fetchVideos up st = Inr st'"
  shows "videos st' = videos st \<or> (\<exists>allVideos. videos st' = sortByPublished allVideos)"
proof (cases "channels st = [] \<or> apiKey st = []")
  case True
  with assms show ?thesis by (auto simp: fetchVideos_def split: if_splits)
next
  case False
  then obtain st'' where "fetchVideos up st = Inr st''"
    "videos st'' = sortByPublished (perChannelResults up st)"
    using fetchVideos_result [of st up] by blast
  with assms show ?thesis by auto
qed

lemma mergeVideos_nonIncreasing: "nonIncreasing (mergeVideos prev newVideos)"
  by (simp add: mergeVideos_fold nonIncreasing_sortByPublished)

lemma mergeVideos_compositeKey_distinct:
  "distinct (map compositeKey (mergeVideos prev newVideos))"
  by (rule distinct_compositeKey) (rule mergeVideos_distinct_keys)

lemma classify_type: "snd (classify videoId videoDurations) \<in> {LongForm, Shorts}"
  by (simp add: classify_def split: option.splits)


section \<open>Merge: key uniqueness and order\<close>

text \<open>
  Claim C1. For every merge of newly fetched items into the feed (the updater of
  \<open>addChannel\<close>), items with equal composite key (kind, channel identifier, item id) are
  deduplicated: after the merge every composite key occurs at most once; the survivors are
  exactly the last occurrences of their key in the sequence "previous feed, then new items",
  so no item with the same composite key was merged after a survivor; \<open>set\<close> on a key
  that is present overwrites the value where the entry stands; and \<open>addChannel\<close> keeps
  the composite keys of the feed pairwise distinct.
\<close>

theorem mergeVideos_key_unique:
  "distinct (map compositeKey (mergeVideos prev newVideos)) \<and>
   set (mergeVideos prev newVideos) =
     {x. \<exists>ys zs. prev @ newVideos = ys @ x # zs \<and> buildVideoKey x \<notin> buildVideoKey ` set zs} \<and>
   (\<forall>x \<in> set (mergeVideos prev newVideos).
      \<exists>ys zs. prev @ newVideos = ys @ x # zs \<and> (\<forall>z \<in> set zs. compositeKey z \<noteq> compositeKey x)) \<and>
   (k \<in> fst ` set m \<longrightarrow>
      map fst (mapSet m k v) = map fst m \<and> length (mapSet m k v) = length m \<and>
      (k, v) \<in> set (mapSet m k v)) \<and>
   (distinct (map compositeKey (videos st)) \<longrightarrow>
      (\<forall>st'. addChannel up rendered st r = Inr st' \<longrightarrow> distinct (map compositeKey (videos st'))))"
proof (intro conjI ballI impI allI)
  show "distinct (map compositeKey (mergeVideos prev newVideos))"
    by (rule mergeVideos_compositeKey_distinct)
  show "set (mergeVideos prev newVideos) =
     {x. \<exists>ys zs. prev @ newVideos = ys @ x # zs \<and> buildVideoKey x \<notin> buildVideoKey ` set zs}"
    by (rule mergeVideos_set)
next
  fix x
  assume "x \<in> set (mergeVideos prev newVideos)"
  then obtain ys zs where d: "prev @ newVideos = ys @ x # zs"
    and n: "buildVideoKey x \<notin> buildVideoKey ` set zs"
    unfolding mergeVideos_set by blast
  have "\<forall>z \<in> set zs. compositeKey z \<noteq> compositeKey x"
    using n buildVideoKey_compositeKey by (metis image_eqI)
  with d show "\<exists>ys zs. prev @ newVideos = ys @ x # zs \<and> (\<forall>z \<in> set zs. compositeKey z \<noteq> compositeKey x)"
    by blast
next
  assume k: "k \<in> fst ` set m"
  show "map fst (mapSet m k v) = map fst m" using k by (simp add: keys_mapSet)
  show "length (mapSet m k v) = length m" using k by (rule length_mapSet_present)
  show "(k, v) \<in> set (mapSet m k v)" by (rule mapSet_member)
next
  fix st'
  assume "distinct (map compositeKey (videos st))" and "addChannel up rendered st r = Inr st'"
  then show "distinct (map compositeKey (videos st'))"
    using addChannel_videos [of up rendered st r st'] by (auto simp: mergeVideos_compositeKey_distinct)
qed

text \<open>
  The theorem at a feed of two items and a fetch that brings one of them twice more.
\<close>

theorem mergeVideos_key_unique_witness:
  "distinct (map compositeKey
     (mergeVideos [Video ''b1'' ''old'' [] ''B'' ''UC_B'' 200 [] ''Video'' LongForm,
                   Video ''b2'' ''two'' [] ''B'' ''UC_B'' 300 [] ''Video'' LongForm]
                  [Video ''b1'' ''new'' [] ''B'' ''UC_B'' 250 [] ''Short'' Shorts,
                   Video ''b1'' ''newer'' [] ''B'' ''UC_B'' 260 [] ''Video'' LongForm])) \<and>
   mergeVideos [Video ''b1'' ''old'' [] ''B'' ''UC_B'' 200 [] ''Video'' LongForm,
                Video ''b2'' ''two'' [] ''B'' ''UC_B'' 300 [] ''Video'' LongForm]
               [Video ''b1'' ''new'' [] ''B'' ''UC_B'' 250 [] ''Short'' Shorts,
                Video ''b1'' ''newer'' [] ''B'' ''UC_B'' 260 [] ''Video'' LongForm] =
     [Video ''b2'' ''two'' [] ''B'' ''UC_B'' 300 [] ''Video'' LongForm,
      Video ''b1'' ''newer'' [] ''B'' ''UC_B'' 260 [] ''Video'' LongForm,
      Video ''b1'' ''new'' [] ''B'' ''UC_B'' 250 [] ''Short'' Shorts] \<and>
   map fst (mapSet [(''k1'', 1::nat), (''k2'', 2)] ''k1'' 3) = [''k1'', ''k2''] \<and>
   distinct (map compositeKey
     (videos (projr (addChannel scenarioUpstream [channelA] (scenarioState [channelA]) searchResultB))))"
proof -
  let ?prev = "[Video ''b1'' ''old'' [] ''B'' ''UC_B'' 200 [] ''Video'' LongForm,
                Video ''b2'' ''two'' [] ''B'' ''UC_B'' 300 [] ''Video'' LongForm]"
  let ?new = "[Video ''b1'' ''new'' [] ''B'' ''UC_B'' 250 [] ''Short'' Shorts,
               Video ''b1'' ''newer'' [] ''B'' ''UC_B'' 260 [] ''Video'' LongForm]"
  let ?m = "[(''k1'', 1::nat), (''k2'', 2)]"
  let ?st = "scenarioState [channelA]"
  note T = mergeVideos_key_unique [of ?prev ?new "''k1''" ?m 3 ?st scenarioUpstream "[channelA]" searchResultB]
  have k: "''k1'' \<in> fst ` set ?m" by simp
  have d: "distinct (map compositeKey (videos ?st))" by (simp add: scenarioState_def)
  obtain st' where a: "addChannel scenarioUpstream [channelA] ?st searchResultB = Inr st'"
    using addChannel_total by blast
  have 1: "distinct (map compositeKey (mergeVideos ?prev ?new))" using T by (rule conjunct1)
  have 2: "map fst (mapSet ?m ''k1'' 3) = map fst ?m" using T k by blast
  have 3: "distinct (map compositeKey (videos st'))" using T d a by blast
  have 4: "mergeVideos ?prev ?new =
     [Video ''b2'' ''two'' [] ''B'' ''UC_B'' 300 [] ''Video'' LongForm,
      Video ''b1'' ''newer'' [] ''B'' ''UC_B'' 260 [] ''Video'' LongForm,
      Video ''b1'' ''new'' [] ''B'' ''UC_B'' 250 [] ''Short'' Shorts]"
    by (simp add: mergeVideos_def newMap_def buildVideoKey_def sortByPublished_def compareFn_def)
  from 1 2 3 4 a show ?thesis by simp
qed

text \<open>
  Claim C3. After any merge, the incremental one of \<open>addChannel\<close> or the full
  refresh of \<open>fetchVideos\<close>, the feed is non-increasing in the published timestamp,
  whatever the order of the registry; and both operations keep a feed in order when they
  leave it as it was.
\<close>

theorem feed_sorted_after_merge:
  "nonIncreasing (mergeVideos prev newVideos) \<and>
   nonIncreasing (sortByPublished allVideos) \<and>
   (channels st \<noteq> [] \<and> apiKey st \<noteq> [] \<longrightarrow>
      (\<forall>st'. fetchVideos up st = Inr st' \<longrightarrow> nonIncreasing (videos st'))) \<and>
   (nonIncreasing (videos st) \<longrightarrow>
      (\<forall>st'. addChannel up rendered st r = Inr st' \<longrightarrow> nonIncreasing (videos st')) \<and>
      (\<forall>st'. fetchVideos up st = Inr st' \<longrightarrow> nonIncreasing (videos st')))"
proof (intro conjI impI allI)
  show "nonIncreasing (mergeVideos prev newVideos)" by (rule mergeVideos_nonIncreasing)
  show "nonIncreasing (sortByPublished allVideos)" by (rule nonIncreasing_sortByPublished)
next
  fix st'
  assume "channels st \<noteq> [] \<and> apiKey st \<noteq> []" and "fetchVideos up st = Inr st'"
  then show "nonIncreasing (videos st')"
    using fetchVideos_result [of st up] by (auto simp: nonIncreasing_sortByPublished)
next
  fix st'
  assume "nonIncreasing (videos st)" and "addChannel up rendered st r = Inr st'"
  then show "nonIncreasing (videos st')"
    using addChannel_videos [of up rendered st r st'] by (auto simp: mergeVideos_nonIncreasing)
next
  fix st'
  assume "nonIncreasing (videos st)" and "fetchVideos up st = Inr st'"
  then show "nonIncreasing (videos st')"
    using fetchVideos_videos [of up st st'] by (auto simp: nonIncreasing_sortByPublished)
qed

text \<open>
  The theorem at a refresh of channels A and B, at adding channel B, and at a refresh of
  an empty registry.
\<close>

theorem feed_sorted_after_merge_witness:
  "nonIncreasing (videos (projr (fetchVideos scenarioUpstream (scenarioState [channelA, channelB])))) \<and>
   nonIncreasing
     (videos (projr (addChannel scenarioUpstream [channelA] (scenarioState [channelA]) searchResultB))) \<and>
   nonIncreasing (videos (projr (fetchVideos scenarioUpstream (scenarioState []))))"
proof -
  let ?two = "scenarioState [channelA, channelB]"
  let ?one = "scenarioState [channelA]"
  let ?none = "scenarioState []"
  obtain s1 where 1: "fetchVideos scenarioUpstream ?two = Inr s1" using fetchVideos_total by blast
  obtain s2 where 2: "addChannel scenarioUpstream [channelA] ?one searchResultB = Inr s2"
    using addChannel_total by blast
  obtain s3 where 3: "fetchVideos scenarioUpstream ?none = Inr s3" using fetchVideos_total by blast
  have h1: "channels ?two \<noteq> [] \<and> apiKey ?two \<noteq> []" by (simp add: scenarioState_def)
  have h2: "nonIncreasing (videos ?one)" by (simp add: scenarioState_def nonIncreasing_def)
  have h3: "nonIncreasing (videos ?none)" by (simp add: scenarioState_def nonIncreasing_def)
  have "nonIncreasing (videos s1)"
    using feed_sorted_after_merge [of "[]" "[]" "[]" ?two scenarioUpstream "[channelA]" searchResultB] h1 1 by blast
  moreover have "nonIncreasing (videos s2)"
    using feed_sorted_after_merge [of "[]" "[]" "[]" ?one scenarioUpstream "[channelA]" searchResultB] h2 2 by blast
  moreover have "nonIncreasing (videos s3)"
    using feed_sorted_after_merge [of "[]" "[]" "[]" ?none scenarioUpstream "[channelA]" searchResultB] h3 3 by blast
  ultimately show ?thesis using 1 2 3 by simp
qed

section \<open>Full refresh\<close>

text \<open>
  Claim C4, as amended. A full refresh replaces the previous snapshot wholesale by the
  per-channel results, concatenated in registry order and sorted descending by published
  timestamp; it does not deduplicate. It yields the feed of the composite-key merge against
  an empty seed whenever the keys of the fetched items are pairwise distinct.
\<close>

theorem fetchVideos_replaces_snapshot:
  assumes "channels st \<noteq> []" and "apiKey st \<noteq> []"
  shows "\<exists>st'. fetchVideos up st = Inr st' \<and>
           videos st' = sortByPublished (perChannelResults up st) \<and>
           (\<forall>vs. \<exists>st''. fetchVideos up (st\<lparr>videos := vs\<rparr>) = Inr st'' \<and> videos st'' = videos st') \<and>
           (distinct (map buildVideoKey (perChannelResults up st)) \<longrightarrow>
              videos st' = mergeVideos [] (perChannelResults up st))"
proof -
  obtain st' where r: "fetchVideos up st = Inr st'"
    and v: "videos st' = sortByPublished (perChannelResults up st)"
    using fetchVideos_result [OF assms, of up] by blast
  have other: "\<exists>st''. fetchVideos up (st\<lparr>videos := vs\<rparr>) = Inr st'' \<and> videos st'' = videos st'" for vs
  proof -
    have "channelContribution up (st\<lparr>videos := vs\<rparr>) = channelContribution up st"
      by (rule ext) (rule channelContribution_cong, simp_all)
    then have "perChannelResults up (st\<lparr>videos := vs\<rparr>) = perChannelResults up st"
      by (simp add: perChannelResults_def)
    moreover have "channels (st\<lparr>videos := vs\<rparr>) \<noteq> []" "apiKey (st\<lparr>videos := vs\<rparr>) \<noteq> []"
      using assms by simp_all
    ultimately show ?thesis
      using fetchVideos_result [of "st\<lparr>videos := vs\<rparr>" up] v by auto
  qed
  have "distinct (map buildVideoKey (perChannelResults up st)) \<longrightarrow>
          videos st' = mergeVideos [] (perChannelResults up st)"
    using v by (simp add: mergeVideos_empty_distinct)
  with r v other show ?thesis by blast
qed

text \<open>
  The claim as stated fails: channel C's two posts share their key, the refresh keeps both
  and the merge against an empty seed keeps one.
\<close>

theorem full_refresh_keeps_duplicates:
  "videos (projr (fetchVideos scenarioUpstream (scenarioState [channelC]))) =
     [CommunityPost ''Hello'' ''Hello'' [] ''C'' ''UC_C'' 20 Community,
      CommunityPost ''Hello'' ''Hello'' [] ''C'' ''UC_C'' 10 Community] \<and>
   mergeVideos [] (perChannelResults scenarioUpstream (scenarioState [channelC])) =
     [CommunityPost ''Hello'' ''Hello'' [] ''C'' ''UC_C'' 20 Community]"
  by (simp add: scenario_defs orchestrator_defs perChannelResults_def channelContribution_def
      mergeVideos_def newMap_def buildVideoKey_def)

text \<open>
  The amended statement at the refresh of channels A and B.
\<close>

theorem fetchVideos_replaces_snapshot_witness:
  "videos (projr (fetchVideos scenarioUpstream (scenarioState [channelA, channelB]))) =
     mergeVideos [] (perChannelResults scenarioUpstream (scenarioState [channelA, channelB])) \<and>
   videos (projr (fetchVideos scenarioUpstream (scenarioState [channelA, channelB]))) =
     [Video ''b2'' ''two'' [] ''B'' ''UC_B'' 300 [] ''Video'' LongForm,
      Video ''b1'' ''one'' [] ''B'' ''UC_B'' 200 [] ''Short'' Shorts,
      Video ''b3'' ''three'' [] ''B'' ''UC_B'' 100 [] ''Video'' LongForm]"
proof -
  let ?st = "scenarioState [channelA, channelB]"
  have h1: "channels ?st \<noteq> []" and h2: "apiKey ?st \<noteq> []" by (simp_all add: scenarioState_def)
  have p: "perChannelResults scenarioUpstream ?st =
     [Video ''b1'' ''one'' [] ''B'' ''UC_B'' 200 [] ''Short'' Shorts,
      Video ''b2'' ''two'' [] ''B'' ''UC_B'' 300 [] ''Video'' LongForm,
      Video ''b3'' ''three'' [] ''B'' ''UC_B'' 100 [] ''Video'' LongForm]"
    by (simp add: scenario_defs orchestrator_defs perChannelResults_def channelContribution_def)
  have d: "distinct (map buildVideoKey (perChannelResults scenarioUpstream ?st))"
    unfolding p by (simp add: buildVideoKey_def)
  obtain st' where r: "fetchVideos scenarioUpstream ?st = Inr st'"
    and m: "videos st' = mergeVideos [] (perChannelResults scenarioUpstream ?st)"
    and s: "videos st' = sortByPublished (perChannelResults scenarioUpstream ?st)"
    using fetchVideos_replaces_snapshot [OF h1 h2, of scenarioUpstream] d by blast
  have "sortByPublished (perChannelResults scenarioUpstream ?st) =
     [Video ''b2'' ''two'' [] ''B'' ''UC_B'' 300 [] ''Video'' LongForm,
      Video ''b1'' ''one'' [] ''B'' ''UC_B'' 200 [] ''Short'' Shorts,
      Video ''b3'' ''three'' [] ''B'' ''UC_B'' 100 [] ''Video'' LongForm]"
    unfolding p by (simp add: sortByPublished_def compareFn_def)
  with r m s show ?thesis by simp
qed

text \<open>
  Claim C5. A refresh never rejects. Over a non-empty registry with a credential, a channel
  whose fetch throws contributes no item, every other channel's items are in the final feed,
  and the feed is the sorted concatenation of the contributions.
\<close>

theorem fetchVideos_channel_isolation:
  "(\<exists>st'. fetchVideos up st = Inr st') \<and>
   (channels st \<noteq> [] \<and> apiKey st \<noteq> [] \<longrightarrow>
      (\<exists>st'. fetchVideos up st = Inr st' \<and>
         videos st' = sortByPublished (concat (map (channelContribution up st) (channels st))) \<and>
         nonIncreasing (videos st') \<and>
         (\<forall>ch \<in> set (channels st).
            (\<forall>e. snd (fetchChannelVideos up st ch) = Inl e \<longrightarrow> channelContribution up st ch = []) \<and>
            (\<forall>channelItems. snd (fetchChannelVideos up st ch) = Inr channelItems \<longrightarrow>
               channelContribution up st ch = channelItems \<and> set channelItems \<subseteq> set (videos st')))))"
proof (intro conjI impI)
  show "\<exists>st'. fetchVideos up st = Inr st'" by (rule fetchVideos_total)
next
  assume a: "channels st \<noteq> [] \<and> apiKey st \<noteq> []"
  then obtain st' where r: "fetchVideos up st = Inr st'"
    and v: "videos st' = sortByPublished (concat (map (channelContribution up st) (channels st)))"
    using fetchVideos_result [of st up] by (auto simp: perChannelResults_def)
  have s: "nonIncreasing (videos st')" using v by (simp add: nonIncreasing_sortByPublished)
  have "\<forall>ch \<in> set (channels st).
            (\<forall>e. snd (fetchChannelVideos up st ch) = Inl e \<longrightarrow> channelContribution up st ch = []) \<and>
            (\<forall>channelItems. snd (fetchChannelVideos up st ch) = Inr channelItems \<longrightarrow>
               channelContribution up st ch = channelItems \<and> set channelItems \<subseteq> set (videos st'))"
  proof (intro ballI conjI allI impI)
    fix ch e
    assume "snd (fetchChannelVideos up st ch) = Inl e"
    then show "channelContribution up st ch = []" by (simp add: channelContribution_def)
  next
    fix ch channelItems
    assume "snd (fetchChannelVideos up st ch) = Inr channelItems"
    then show c: "channelContribution up st ch = channelItems" by (simp add: channelContribution_def)
    assume "ch \<in> set (channels st)"
    with c show "set channelItems \<subseteq> set (videos st')"
      unfolding v set_sortByPublished by auto
  qed
  with r v s show "\<exists>st'. fetchVideos up st = Inr st' \<and>
         videos st' = sortByPublished (concat (map (channelContribution up st) (channels st))) \<and>
         nonIncreasing (videos st') \<and>
         (\<forall>ch \<in> set (channels st).
            (\<forall>e. snd (fetchChannelVideos up st ch) = Inl e \<longrightarrow> channelContribution up st ch = []) \<and>
            (\<forall>channelItems. snd (fetchChannelVideos up st ch) = Inr channelItems \<longrightarrow>
               channelContribution up st ch = channelItems \<and> set channelItems \<subseteq> set (videos st')))"
    by blast
qed

text \<open>
  The scenario of the specification: A's fetch throws, B's succeeds with three items, and the
  feed is B's three items in descending order.
\<close>

theorem fetchVideos_channel_isolation_witness:
  "snd (fetchChannelVideos scenarioUpstream (scenarioState [channelA, channelB]) channelA) =
     Inl FetchRejected \<and>
   snd (fetchChannelVideos scenarioUpstream (scenarioState [channelA, channelB]) channelB) =
     Inr [Video ''b1'' ''one'' [] ''B'' ''UC_B'' 200 [] ''Short'' Shorts,
          Video ''b2'' ''two'' [] ''B'' ''UC_B'' 300 [] ''Video'' LongForm,
          Video ''b3'' ''three'' [] ''B'' ''UC_B'' 100 [] ''Video'' LongForm] \<and>
   \<not> isl (fetchVideos scenarioUpstream (scenarioState [channelA, channelB])) \<and>
   videos (projr (fetchVideos scenarioUpstream (scenarioState [channelA, channelB]))) =
     [Video ''b2'' ''two'' [] ''B'' ''UC_B'' 300 [] ''Video'' LongForm,
      Video ''b1'' ''one'' [] ''B'' ''UC_B'' 200 [] ''Short'' Shorts,
      Video ''b3'' ''three'' [] ''B'' ''UC_B'' 100 [] ''Video'' LongForm]"
proof -
  let ?st = "scenarioState [channelA, channelB]"
  let ?items = "[Video ''b1'' ''one'' [] ''B'' ''UC_B'' 200 [] ''Short'' Shorts,
          Video ''b2'' ''two'' [] ''B'' ''UC_B'' 300 [] ''Video'' LongForm,
          Video ''b3'' ''three'' [] ''B'' ''UC_B'' 100 [] ''Video'' LongForm]"
  have h: "channels ?st \<noteq> [] \<and> apiKey ?st \<noteq> []" by (simp add: scenarioState_def)
  have a: "snd (fetchChannelVideos scenarioUpstream ?st channelA) = Inl FetchRejected"
    by (simp add: scenario_defs orchestrator_defs)
  have b: "snd (fetchChannelVideos scenarioUpstream ?st channelB) = Inr ?items"
    by (simp add: scenario_defs orchestrator_defs)
  have chs: "channels ?st = [channelA, channelB]" by (simp add: scenarioState_def)
  obtain st' where r: "fetchVideos scenarioUpstream ?st = Inr st'"
    and v: "videos st' = sortByPublished (concat (map (channelContribution scenarioUpstream ?st) (channels ?st)))"
    and c: "\<forall>ch \<in> set (channels ?st).
            (\<forall>e. snd (fetchChannelVideos scenarioUpstream ?st ch) = Inl e \<longrightarrow>
                 channelContribution scenarioUpstream ?st ch = []) \<and>
            (\<forall>channelItems. snd (fetchChannelVideos scenarioUpstream ?st ch) = Inr channelItems \<longrightarrow>
               channelContribution scenarioUpstream ?st ch = channelItems \<and>
               set channelItems \<subseteq> set (videos st'))"
    using fetchVideos_channel_isolation [of scenarioUpstream ?st] h by blast
  have ca: "channelContribution scenarioUpstream ?st channelA = []"
    using c a unfolding chs by simp
  have cb: "channelContribution scenarioUpstream ?st channelB = ?items"
    using c b unfolding chs by simp
  have "videos st' = sortByPublished ?items"
    using v ca cb unfolding chs by simp
  then have "videos st' =
     [Video ''b2'' ''two'' [] ''B'' ''UC_B'' 300 [] ''Video'' LongForm,
      Video ''b1'' ''one'' [] ''B'' ''UC_B'' 200 [] ''Short'' Shorts,
      Video ''b3'' ''three'' [] ''B'' ''UC_B'' 100 [] ''Video'' LongForm]"
    by (simp add: sortByPublished_def compareFn_def)
  with a b r show ?thesis by simp
qed

section \<open>Batched detail fetcher\<close>

text \<open>
  Claim C6, as amended. The \<open>N\<close> identifiers are cut into \<open>\<lceil>N/50\<rceil>\<close> batches of at
  most 50. When no request throws, the fetcher issues exactly one request per batch, and a
  batch answered without \<open>items\<close> contributes no entry while the entries of the other
  batches are kept. A request that throws ends the loop: the requests issued are those up to
  the throwing one and no table is returned.
\<close>

theorem fetchDurations_batches:
  "length (batches videoIds) = (length videoIds + 49) div 50 \<and>
   (\<forall>b \<in> set (batches videoIds). length b \<le> 50) \<and>
   concat (batches videoIds) = videoIds \<and>
   ((\<forall>b \<in> set (batches videoIds). \<not> isl (videosApi up b)) \<longrightarrow>
      fetchDurations up videoIds =
        (batches videoIds,
         Inr (storeDurations Map.empty (concat (map (batchItems up) (batches videoIds)))))) \<and>
   (\<forall>b. videosApi up b = Inr None \<longrightarrow> batchItems up b = []) \<and>
   (\<forall>j e. j < length (batches videoIds) \<and> videosApi up (batches videoIds ! j) = Inl e \<and>
          (\<forall>i < j. \<not> isl (videosApi up (batches videoIds ! i))) \<longrightarrow>
      fetchDurations up videoIds = (take (Suc j) (batches videoIds), Inl e))"
proof (intro conjI ballI allI impI)
  show "length (batches videoIds) = (length videoIds + 49) div 50" by (rule length_batches)
  show "concat (batches videoIds) = videoIds" by (rule concat_batches)
next
  fix b assume "b \<in> set (batches videoIds)"
  then show "length b \<le> 50" by (rule batches_size)
next
  assume "\<forall>b \<in> set (batches videoIds). \<not> isl (videosApi up b)"
  then show "fetchDurations up videoIds =
        (batches videoIds,
         Inr (storeDurations Map.empty (concat (map (batchItems up) (batches videoIds)))))"
    using runBatches_no_throw [of "batches videoIds" up Map.empty "[]"]
    by (simp add: fetchDurations_runBatches)
next
  fix b assume "videosApi up b = Inr None"
  then show "batchItems up b = []" by (simp add: batchItems_def)
next
  fix j e
  assume "j < length (batches videoIds) \<and> videosApi up (batches videoIds ! j) = Inl e \<and>
          (\<forall>i < j. \<not> isl (videosApi up (batches videoIds ! i)))"
  then show "fetchDurations up videoIds = (take (Suc j) (batches videoIds), Inl e)"
    using runBatches_throw [of j "batches videoIds" up e Map.empty "[]"]
    by (simp add: fetchDurations_runBatches)
qed

text \<open>
  The claim as stated fails: of three batches the second throws, two requests are issued and
  the entries of the first batch are lost.
\<close>

theorem batch_throw_aborts_loop:
  "fst (fetchDurations throwingUpstream manyIds) = [replicate 50 ''a'', replicate 50 ''b''] \<and>
   snd (fetchDurations throwingUpstream manyIds) = Inl FetchRejected \<and>
   (length manyIds + 49) div 50 = 3"
proof -
  have e: "fst (fetchDurations throwingUpstream manyIds) = [replicate 50 ''a'', replicate 50 ''b''] \<and>
      isl (snd (fetchDurations throwingUpstream manyIds)) \<and> (length manyIds + 49) div 50 = 3"
    by code_simp
  then obtain err where "snd (fetchDurations throwingUpstream manyIds) = Inl err"
    by (cases "snd (fetchDurations throwingUpstream manyIds)") auto
  moreover have "err = FetchRejected" by (cases err) simp
  ultimately show ?thesis using e by simp
qed

text \<open>
  The amended statement at 101 identifiers, with the second batch answered by an error body,
  and with the second request throwing.
\<close>

theorem fetchDurations_batches_witness:
  "fst (fetchDurations errorBodyUpstream manyIds) =
     [replicate 50 ''a'', replicate 50 ''b'', [''c'']] \<and>
   length (fst (fetchDurations errorBodyUpstream manyIds)) = (101 + 49) div 50 \<and>
   projr (snd (fetchDurations errorBodyUpstream manyIds)) ''a'' = Some ''PT5M'' \<and>
   projr (snd (fetchDurations errorBodyUpstream manyIds)) ''b'' = None \<and>
   projr (snd (fetchDurations errorBodyUpstream manyIds)) ''c'' = Some ''PT5M'' \<and>
   fetchDurations throwingUpstream manyIds = (take 2 (batches manyIds), Inl FetchRejected)"
proof -
  note T1 = fetchDurations_batches [of manyIds errorBodyUpstream]
  note T2 = fetchDurations_batches [of manyIds throwingUpstream]
  have bs: "batches manyIds = [replicate 50 ''a'', replicate 50 ''b'', [''c'']]" by code_simp
  have len: "length manyIds = 101" by code_simp
  have ok: "\<forall>b \<in> set (batches manyIds). \<not> isl (videosApi errorBodyUpstream b)"
    unfolding bs by (simp add: errorBodyUpstream_def)
  have r: "fetchDurations errorBodyUpstream manyIds =
        (batches manyIds,
         Inr (storeDurations Map.empty (concat (map (batchItems errorBodyUpstream) (batches manyIds)))))"
    using T1 ok by blast
  have i1: "batchItems errorBodyUpstream (replicate 50 ''a'') = [\<lparr>vd_id = ''a'', vd_duration = ''PT5M''\<rparr>]"
    by code_simp
  have i2: "batchItems errorBodyUpstream (replicate 50 ''b'') = []"
    using T1 by (simp add: errorBodyUpstream_def)
  have i3: "batchItems errorBodyUpstream [''c''] = [\<lparr>vd_id = ''c'', vd_duration = ''PT5M''\<rparr>]"
    by code_simp
  have t: "1 < length (batches manyIds) \<and> videosApi throwingUpstream (batches manyIds ! 1) = Inl FetchRejected \<and>
          (\<forall>i < 1. \<not> isl (videosApi throwingUpstream (batches manyIds ! i)))"
    unfolding bs by (simp add: throwingUpstream_def)
  have r2: "fetchDurations throwingUpstream manyIds = (take (Suc 1) (batches manyIds), Inl FetchRejected)"
    using T2 t by blast
  have two: "Suc 1 = 2" by simp
  show ?thesis
    using r2 unfolding r two by (simp add: bs i1 i2 i3 del: replicate_eq_replicate)
qed

section \<open>Feed cache\<close>

text \<open>
  Claim C7. Reading the cache returns the stored snapshot exactly when its capture timestamp
  is less than 24 hours old, and the empty feed when it is 24 hours old or older or when
  nothing is stored; writing stores a non-empty snapshot with the current time and leaves
  the stored value alone for an empty snapshot.
\<close>

theorem feed_cache_read_write:
  "loadCachedVideos now None = [] \<and>
   (now - cached_timestamp data < 24 * 60 * 60 * 1000 \<longrightarrow>
      loadCachedVideos now (Some data) = cached_videos data) \<and>
   (now - cached_timestamp data \<ge> 24 * 60 * 60 * 1000 \<longrightarrow>
      loadCachedVideos now (Some data) = []) \<and>
   (vs \<noteq> [] \<longrightarrow> cacheVideos now vs saved = Some \<lparr>cached_videos = vs, cached_timestamp = now\<rparr>) \<and>
   cacheVideos now [] saved = saved"
  by (simp add: loadCachedVideos_def cacheVideos_def)

text \<open>
  The theorem one millisecond inside and exactly at the 24 hours.
\<close>

theorem feed_cache_read_write_witness:
  "loadCachedVideos 90000000
     (Some \<lparr>cached_videos = [CommunityPost ''Hello'' ''Hello'' [] ''C'' ''UC_C'' 20 Community],
            cached_timestamp = 3600001\<rparr>) =
     [CommunityPost ''Hello'' ''Hello'' [] ''C'' ''UC_C'' 20 Community] \<and>
   loadCachedVideos 90000000
     (Some \<lparr>cached_videos = [CommunityPost ''Hello'' ''Hello'' [] ''C'' ''UC_C'' 20 Community],
            cached_timestamp = 3600000\<rparr>) = [] \<and>
   cacheVideos 90000000 [CommunityPost ''Hello'' ''Hello'' [] ''C'' ''UC_C'' 20 Community] None =
     Some \<lparr>cached_videos = [CommunityPost ''Hello'' ''Hello'' [] ''C'' ''UC_C'' 20 Community],
           cached_timestamp = 90000000\<rparr>"
  using feed_cache_read_write
          [of 90000000 "\<lparr>cached_videos = [CommunityPost ''Hello'' ''Hello'' [] ''C'' ''UC_C'' 20 Community],
                          cached_timestamp = 3600001\<rparr>"
              "[CommunityPost ''Hello'' ''Hello'' [] ''C'' ''UC_C'' 20 Community]" None]
        feed_cache_read_write
          [of 90000000 "\<lparr>cached_videos = [CommunityPost ''Hello'' ''Hello'' [] ''C'' ''UC_C'' 20 Community],
                          cached_timestamp = 3600000\<rparr>" "[]" None]
  by simp

section \<open>Time window\<close>



section \<open>Channel registry\<close>




text \<open>
  Outside the amended statement: a second call made by a handler of the same render, which
  still sees the registry without B, registers B a second time.
\<close>

lemma addChannel_from_stale_render:
  "map channel_id
     (channels (projr (addChannel scenarioUpstream [channelA]
        (projr (addChannel scenarioUpstream [channelA] (scenarioState [channelA]) searchResultB))
        searchResultB))) = [''UC_A'', ''UC_B'', ''UC_B'']"
  by (simp add: addChannel_def newChannelOf_def searchResultB_def scenario_defs orchestrator_defs
      mergeVideos_def newMap_def buildVideoKey_def)

section \<open>Community posts\<close>

text \<open>
  Claim C10, as amended. The id of a community post is the first 50 characters of its text
  whenever the text is present and not empty; the native id of the upstream record is used
  only when there is no text.
\<close>

theorem community_post_id:
  "x \<in> set (communityItem ch cutoff fs a) \<Longrightarrow>
     item_id x = (case act_description a of
                    None \<Rightarrow> act_id a
                  | Some d \<Rightarrow> if d = [] then act_id a else take 50 d)"
  by (auto simp: communityItem_def communityId_def split: if_splits option.splits)

text \<open>
  The claim as stated fails: the record carries the native id \<open>p1\<close> and the item's id
  is its text.
\<close>

theorem community_post_id_ignores_native_id:
  "map item_id (communityItem channelC 1000 \<lparr>maxVideosPerChannel = 10, timeRangeDays = 0\<rparr> helloPost) =
     [''Hello''] \<and> act_id helloPost = ''p1''"
  by (simp add: communityItem_def communityId_def keepCommunity_def helloPost_def)

text \<open>
  The amended statement at that record.
\<close>

theorem community_post_id_witness:
  "item_id (CommunityPost ''Hello'' ''Hello'' [] ''C'' ''UC_C'' 10 Community) = take 50 ''Hello'' \<and>
   communityItem channelC 1000 \<lparr>maxVideosPerChannel = 10, timeRangeDays = 0\<rparr> helloPost =
     [CommunityPost ''Hello'' ''Hello'' [] ''C'' ''UC_C'' 10 Community]"
proof -
  let ?fs = "\<lparr>maxVideosPerChannel = 10, timeRangeDays = 0\<rparr>"
  let ?x = "CommunityPost ''Hello'' ''Hello'' [] ''C'' ''UC_C'' 10 Community"
  have e: "communityItem channelC 1000 ?fs helloPost = [?x]"
    by (simp add: communityItem_def communityId_def keepCommunity_def helloPost_def channelC_def)
  then have "?x \<in> set (communityItem channelC 1000 ?fs helloPost)" by simp
  from community_post_id [OF this] have "item_id ?x = take 50 ''Hello''"
    by (simp add: helloPost_def)
  with e show ?thesis by simp
qed

section \<open>Classifier\<close>

text \<open>
  Claim C2. The classifier reads minutes and seconds only. The duration code
  \<open>PT1H2M3S\<close> of a video of 3723 seconds matches at \<open>PT\<close> with both groups
  skipped, so the total is 0 seconds and the video is labelled short-form; a code without
  \<open>PT\<close> is labelled short-form in the same way.
\<close>

theorem classify_hour_long_video:
  "classify (Some ''b1'') [''b1'' \<mapsto> ''PT1H2M3S''] = (''Short'', Shorts) \<and>
   totalSeconds ''PT1H2M3S'' = 0 \<and>
   classify (Some ''b1'') [''b1'' \<mapsto> ''unknown''] = (''Short'', Shorts)"
  by (simp add: classify_def totalSeconds_def optGroup_def isDigit_def parseInt_def digitVal_def)


end
